theory Spec2Isabelle
  imports Complex_Main
begin

section \<open>Python values used by the two scripts\<close>

text \<open>
  Strings are lists of characters; a \<^typ>\<open>char\<close> stands for a code point below 256.
  In that range the decimal digits matched by the regular expression \<^verbatim>\<open>\d\<close> are
  exactly \<^verbatim>\<open>0\<close> to \<^verbatim>\<open>9\<close>, and the characters removed by \<^verbatim>\<open>str.strip()\<close> are the
  code points 9 to 13, 28 to 32, 133 and 160.
\<close>

datatype py_error = ValueError | IndexError | KeyError | AttributeError | RuntimeError | ExecuteError

text \<open>\<^verbatim>\<open>s.split(sep)\<close> for a one-character separator: the second argument is the
  segment read so far.\<close>

fun split_acc :: "char \<Rightarrow> string \<Rightarrow> string \<Rightarrow> string list" where
  "split_acc sep cur [] = [cur]"
| "split_acc sep cur (c # cs) =
     (if c = sep then cur # split_acc sep [] cs else split_acc sep (cur @ [c]) cs)"

definition str_split :: "string \<Rightarrow> char \<Rightarrow> string list" where
  "str_split s sep = split_acc sep [] s"

text \<open>\<^verbatim>\<open>sep.join(xs)\<close>.\<close>

fun str_join :: "string \<Rightarrow> string list \<Rightarrow> string" where
  "str_join sep [] = []"
| "str_join sep [x] = x"
| "str_join sep (x # y # ys) = x @ sep @ str_join sep (y # ys)"

text \<open>\<^verbatim>\<open>s.rsplit(sep, 1)\<close>: at most one split, at the last separator.\<close>

definition str_rsplit1 :: "string \<Rightarrow> char \<Rightarrow> string list" where
  "str_rsplit1 s sep =
     (if sep \<in> set s
      then [rev (tl (dropWhile (\<lambda>c. c \<noteq> sep) (rev s))), rev (takeWhile (\<lambda>c. c \<noteq> sep) (rev s))]
      else [s])"

text \<open>\<^verbatim>\<open>xs[0]\<close>.\<close>

definition item0 :: "'a list \<Rightarrow> py_error + 'a" where
  "item0 xs = (case xs of [] \<Rightarrow> Inl IndexError | x # _ \<Rightarrow> Inr x)"

text \<open>\<^verbatim>\<open>xs.index(x)\<close>: the position of the first element equal to \<open>x\<close>, ValueError when
  there is none.\<close>

fun list_index :: "'a list \<Rightarrow> 'a \<Rightarrow> py_error + nat" where
  "list_index [] x = Inl ValueError"
| "list_index (y # ys) x =
     (if y = x then Inr 0
      else (case list_index ys x of Inl e \<Rightarrow> Inl e | Inr i \<Rightarrow> Inr (Suc i)))"

text \<open>\<^verbatim>\<open>xs[:stop]\<close>: a negative stop counts from the end, and the bound is clamped
  to the list.\<close>

definition slice_to :: "'a list \<Rightarrow> int \<Rightarrow> 'a list" where
  "slice_to xs stop =
     (let n = int (length xs);
          k = (if stop < 0 then max 0 (stop + n) else min stop n)
      in take (nat k) xs)"

definition is_digit :: "char \<Rightarrow> bool" where
  "is_digit c = (c \<in> set ''0123456789'')"

text \<open>\<^verbatim>\<open>re.fullmatch(r"\d{4}", p)\<close> as a truth value.\<close>

definition fullmatch_d4 :: "string \<Rightarrow> bool" where
  "fullmatch_d4 p = (length p = 4 \<and> list_all is_digit p)"

text \<open>\<^verbatim>\<open>next((p for p in parts if ...), default)\<close>.\<close>

definition next_or :: "('a \<Rightarrow> bool) \<Rightarrow> 'a list \<Rightarrow> 'a \<Rightarrow> 'a" where
  "next_or P xs d = (case List.find P xs of None \<Rightarrow> d | Some x \<Rightarrow> x)"

section \<open>Name derivation\<close>

text \<open>The body of the \<^verbatim>\<open>try\<close> block of \<^verbatim>\<open>extract_location_year\<close> (IsoClass.py).\<close>

definition location_of :: "string list \<Rightarrow> string \<Rightarrow> py_error + string" where
  "location_of parts year =
     (case list_index parts year of
        Inl e \<Rightarrow> Inl e
      | Inr year_index \<Rightarrow> Inr (str_join ''_'' (slice_to parts (int year_index - 1))))"

text \<open>\<^verbatim>\<open>extract_location_year\<close>: the bare \<^verbatim>\<open>except\<close> turns every error of the
  \<^verbatim>\<open>try\<close> block into the location \<^verbatim>\<open>UnknownLoc\<close>. The result is \<open>Inr\<close> of the returned
  string; \<open>Inl\<close> would be an exception leaving the function.\<close>

definition extract_location_year :: "string \<Rightarrow> py_error + string" where
  "extract_location_year raster_name =
     (let parts = str_split raster_name CHR ''_'';
          year = next_or fullmatch_d4 parts ''unknown'';
          location = (case location_of parts year of
                        Inl _ \<Rightarrow> ''UnknownLoc''
                      | Inr l \<Rightarrow> l)
      in Inr (location @ ''_'' @ year))"

text \<open>\<^verbatim>\<open>raster_to_lake_name\<close> (CreateLakePolygons.py).\<close>

definition raster_to_lake_name :: "string \<Rightarrow> py_error + string" where
  "raster_to_lake_name raster_name =
     (case item0 (str_rsplit1 raster_name CHR ''_'') of
        Inl e \<Rightarrow> Inl e
      | Inr base \<Rightarrow> Inr (base @ ''_Lakes''))"

section \<open>Decimal rendering of integers\<close>

text \<open>The text an f-string produces for an \<^verbatim>\<open>int\<close>.\<close>

definition digit_char :: "nat \<Rightarrow> char" where
  "digit_char d = char_of (48 + d)"

function str_nat :: "nat \<Rightarrow> string" where
  "str_nat n = (if n < 10 then [digit_char n] else str_nat (n div 10) @ [digit_char (n mod 10)])"
  by pat_completeness auto
termination
  by (relation "measure id") auto

declare str_nat.simps [simp del]

definition str_int :: "int \<Rightarrow> string" where
  "str_int i = (if i < 0 then CHR ''-'' # str_nat (nat (- i)) else str_nat (nat i))"

section \<open>The tracking table as a text file\<close>

text \<open>
  \<^verbatim>\<open>csv.writer(f).writerow(fields)\<close> with the default dialect: fields are separated by
  a comma, the line ends with CR LF, a field is put in double quotes (with its own
  double quotes doubled) when it holds a comma, a double quote, CR or LF, and a row
  made of one empty field is written as two double quotes.
\<close>

definition cr :: char where "cr = CHR 0x0D"
definition lf :: char where "lf = CHR 0x0A"
definition dquote :: char where "dquote = CHR 0x22"

definition needs_quote :: "string \<Rightarrow> bool" where
  "needs_quote field = list_ex (\<lambda>c. c \<in> set [CHR '','', dquote, cr, lf]) field"

definition quote_field :: "string \<Rightarrow> string" where
  "quote_field field =
     (if needs_quote field
      then dquote # concat (map (\<lambda>c. if c = dquote then [dquote, dquote] else [c]) field) @ [dquote]
      else field)"

definition writerow :: "string list \<Rightarrow> string" where
  "writerow fields =
     (if fields = [[]] then [dquote, dquote] else str_join '','' (map quote_field fields))
     @ [cr, lf]"




text \<open>
  \<^verbatim>\<open>csv.reader\<close> with the default dialect, on a file opened with \<^verbatim>\<open>newline=""\<close>. The
  reader is a state machine over the characters of the file: a row ends at CR, LF or
  CR LF outside a quoted field, a field ends at a comma outside quotes, a quoted field
  runs to its closing double quote and holds a double quote for every doubled one.
  \<open>AfterCR\<close> is the start of a row reached through a CR, where an LF still belongs to
  the line break just read. Empty lines give empty rows. The limit on the length of a
  field is not modelled.
\<close>

datatype parse_mode = StartRecord | AfterCR | StartField | InField | InQuoted | QuoteInQuoted

record parser =
  p_mode :: parse_mode
  p_field :: string
  p_row :: "string list"

definition new_record :: "parse_mode \<Rightarrow> parser" where
  "new_record m = \<lparr>p_mode = m, p_field = [], p_row = []\<rparr>"

definition save_field :: "parser \<Rightarrow> parser" where
  "save_field p = p\<lparr>p_row := p_row p @ [p_field p], p_field := []\<rparr>"

definition add_char :: "char \<Rightarrow> parser \<Rightarrow> parser" where
  "add_char c p = p\<lparr>p_field := p_field p @ [c]\<rparr>"

definition end_row :: "parser \<Rightarrow> char \<Rightarrow> parser \<times> string list option" where
  "end_row p c =
     (new_record (if c = cr then AfterCR else StartRecord), Some (p_row p @ [p_field p]))"

definition start_field :: "parser \<Rightarrow> char \<Rightarrow> parser \<times> string list option" where
  "start_field p c =
     (if c = cr \<or> c = lf then end_row p c
      else if c = dquote then (p\<lparr>p_mode := InQuoted\<rparr>, None)
      else if c = CHR '','' then ((save_field p)\<lparr>p_mode := StartField\<rparr>, None)
      else ((add_char c p)\<lparr>p_mode := InField\<rparr>, None))"

text \<open>One character: the new state of the reader and the row it completes, if any.\<close>

definition process_char :: "parser \<Rightarrow> char \<Rightarrow> parser \<times> string list option" where
  "process_char p c =
     (case p_mode p of
        StartRecord \<Rightarrow>
          if c = cr \<or> c = lf
          then (new_record (if c = cr then AfterCR else StartRecord), Some [])
          else start_field p c
      | AfterCR \<Rightarrow>
          if c = lf then (new_record StartRecord, None)
          else if c = cr then (new_record AfterCR, Some [])
          else start_field p c
      | StartField \<Rightarrow> start_field p c
      | InField \<Rightarrow>
          if c = cr \<or> c = lf then end_row p c
          else if c = CHR '','' then ((save_field p)\<lparr>p_mode := StartField\<rparr>, None)
          else (add_char c p, None)
      | InQuoted \<Rightarrow>
          if c = dquote then (p\<lparr>p_mode := QuoteInQuoted\<rparr>, None)
          else (add_char c p, None)
      | QuoteInQuoted \<Rightarrow>
          if c = dquote then ((add_char c p)\<lparr>p_mode := InQuoted\<rparr>, None)
          else if c = CHR '','' then ((save_field p)\<lparr>p_mode := StartField\<rparr>, None)
          else if c = cr \<or> c = lf then end_row p c
          else ((add_char c p)\<lparr>p_mode := InField\<rparr>, None))"

fun feed :: "parser \<Rightarrow> string \<Rightarrow> string list list \<times> parser" where
  "feed p [] = ([], p)"
| "feed p (c # cs) =
     (case process_char p c of
        (p', out) \<Rightarrow>
          (case feed p' cs of
             (rows, q) \<Rightarrow> ((case out of None \<Rightarrow> [] | Some r \<Rightarrow> [r]) @ rows, q)))"



text \<open>A text ends a row when the reader is at the start of a row after it: the text is
  empty, or its last character is a line break that is not inside a quoted field.\<close>

definition ends_row :: "string \<Rightarrow> bool" where
  "ends_row inp =
     (p_mode (snd (feed (new_record StartRecord) inp)) = StartRecord \<or>
      p_mode (snd (feed (new_record StartRecord) inp)) = AfterCR)"

text \<open>At the start of a row the reader holds no field and no row.\<close>

definition tidy :: "parser \<Rightarrow> bool" where
  "tidy p =
     (if p_mode p = StartRecord \<or> p_mode p = AfterCR then p = new_record (p_mode p) else True)"


section \<open>Stage 1: IsoClass.py\<close>






definition iso_output_name :: "int \<Rightarrow> string \<Rightarrow> string" where
  "iso_output_name num_classes short_name = short_name @ ''_'' @ str_int num_classes @ ''class''"


text \<open>The row that one pass of the loop hands to \<^verbatim>\<open>writerow\<close> for a raster (lines 80, 83
  and 102), and the line that is appended for it.\<close>

definition tracking_fields :: "int \<Rightarrow> string \<Rightarrow> string list" where
  "tracking_fields num_classes raster =
     [iso_output_name num_classes (projr (extract_location_year raster)), []]"

definition tracking_row :: "int \<Rightarrow> string \<Rightarrow> string" where
  "tracking_row num_classes raster = writerow (tracking_fields num_classes raster)"


section \<open>Stage 2: CreateLakePolygons.py\<close>

definition is_space :: "char \<Rightarrow> bool" where
  "is_space c = ((of_char c :: nat) \<in> set [9, 10, 11, 12, 13, 28, 29, 30, 31, 32, 133, 160])"

text \<open>\<^verbatim>\<open>s.strip()\<close>.\<close>

definition str_strip :: "string \<Rightarrow> string" where
  "str_strip s = rev (dropWhile is_space (rev (dropWhile is_space s)))"

text \<open>
  A row of \<^verbatim>\<open>csv.DictReader\<close> is a dictionary from the column names of the header
  line to the fields of the row; a column for which the row has no field holds
  \<^verbatim>\<open>None\<close>. \<open>getitem\<close> is \<^verbatim>\<open>row[key]\<close>.
\<close>

type_synonym csv_row = "(string \<times> string option) list"

definition getitem :: "csv_row \<Rightarrow> string \<Rightarrow> py_error + string option" where
  "getitem row key = (case map_of row key of None \<Rightarrow> Inl KeyError | Some v \<Rightarrow> Inr v)"

text \<open>The text an f-string produces for a value that is a string or \<^verbatim>\<open>None\<close>.\<close>

definition fmt :: "string option \<Rightarrow> string" where
  "fmt v = (case v of None \<Rightarrow> ''None'' | Some s \<Rightarrow> s)"

text \<open>
  Lines 79 to 84. \<open>cursor_values\<close> are the values the search cursor yields. The source
  collects them in a set, whose iteration order Python does not fix; here the order is
  that of \<^const>\<open>remdups\<close>.
\<close>

definition build_remap :: "int \<Rightarrow> int list \<Rightarrow> (int \<times> int) list" where
  "build_remap water_class cursor_values =
     (let class_values = remdups cursor_values;
          non_water = filter (\<lambda>val. val \<noteq> water_class) class_values
      in (water_class, 1) # map (\<lambda>val. (val, 0)) non_water)"

text \<open>
  A polygon feature: the geodesic area of its geometry in square metres, as
  \<^verbatim>\<open>CalculateGeometryAttributes\<close> computes it, and its numeric attribute fields, where
  \<open>Some None\<close> is a field holding a null. Areas and the threshold are real numbers.
\<close>

record feature =
  fid :: nat
  area_geodesic :: real
  attrs :: "string \<rightharpoonup> real option"

text \<open>A feature layer: its features and the current selection (\<open>None\<close>: no selection
  has been made).\<close>

record layer =
  features :: "feature list"
  selection :: "feature list option"

definition make_feature_layer :: "feature list \<Rightarrow> layer" where
  "make_feature_layer fs = \<lparr>features = fs, selection = None\<rparr>"

definition add_field :: "string \<Rightarrow> layer \<Rightarrow> layer" where
  "add_field name lyr =
     lyr\<lparr>features := map (\<lambda>f. f\<lparr>attrs := (attrs f)(name \<mapsto> None)\<rparr>) (features lyr)\<rparr>"

definition calculate_area_geodesic :: "string \<Rightarrow> layer \<Rightarrow> layer" where
  "calculate_area_geodesic name lyr =
     lyr\<lparr>features :=
           map (\<lambda>f. f\<lparr>attrs := (attrs f)(name \<mapsto> Some (area_geodesic f))\<rparr>) (features lyr)\<rparr>"

text \<open>The where clause \<^verbatim>\<open>field op value\<close> of an attribute selection; a comparison with a
  null or with a missing field selects nothing.\<close>

datatype cmp = Gt | Ge | Lt | Le | Eq | Ne

datatype where_clause = Compare string cmp real

fun cmp_holds :: "cmp \<Rightarrow> real \<Rightarrow> real \<Rightarrow> bool" where
  "cmp_holds Gt x y = (x > y)"
| "cmp_holds Ge x y = (x \<ge> y)"
| "cmp_holds Lt x y = (x < y)"
| "cmp_holds Le x y = (x \<le> y)"
| "cmp_holds Eq x y = (x = y)"
| "cmp_holds Ne x y = (x \<noteq> y)"

fun where_holds :: "where_clause \<Rightarrow> feature \<Rightarrow> bool" where
  "where_holds (Compare name op v) f =
     (case attrs f name of Some (Some x) \<Rightarrow> cmp_holds op x v | _ \<Rightarrow> False)"

text \<open>\<^verbatim>\<open>SelectLayerByAttribute(layer, "NEW_SELECTION", clause)\<close>.\<close>

definition select_new :: "where_clause \<Rightarrow> layer \<Rightarrow> layer" where
  "select_new clause lyr = lyr\<lparr>selection := Some (filter (where_holds clause) (features lyr))\<rparr>"

text \<open>\<^verbatim>\<open>CopyFeatures\<close> copies the selected features of a layer, and all of them when
  the layer has no selection.\<close>

definition copy_features :: "layer \<Rightarrow> feature list" where
  "copy_features lyr = (case selection lyr of None \<Rightarrow> features lyr | Some sel \<Rightarrow> sel)"

text \<open>The where clause of line 106: \<^verbatim>\<open>f"poly_area > {area_threshold}"\<close>.\<close>

definition area_clause :: "real \<Rightarrow> where_clause" where
  "area_clause area_threshold = Compare ''poly_area'' Gt area_threshold"

text \<open>Lines 103 to 110, from the clipped polygons to the features that are saved.\<close>

definition area_filter :: "real \<Rightarrow> feature list \<Rightarrow> feature list" where
  "area_filter area_threshold clipped_polygons =
     (let temp_lyr = make_feature_layer clipped_polygons;
          temp_lyr = add_field ''poly_area'' temp_lyr;
          temp_lyr = calculate_area_geodesic ''poly_area'' temp_lyr;
          temp_lyr = select_new (area_clause area_threshold) temp_lyr
      in copy_features temp_lyr)"

text \<open>
  What Stage 2 calls outside the repository: \<open>py_int\<close> is Python's \<^verbatim>\<open>int\<close> on a
  string (\<open>None\<close>: ValueError); \<open>search_cursor\<close> gives the \<^verbatim>\<open>Value\<close> column of a
  classified raster; \<open>to_polygons\<close> stands for steps 1 to 6 (Reclassify with the remap,
  MajorityFilter, Fill, Reclassify, RasterToPolygon, Clip) and gives the clipped
  polygons; \<open>None\<close> means that the call raises. \<open>validate_table_name\<close> is
  \<^verbatim>\<open>arcpy.ValidateTableName\<close> for the output geodatabase.
\<close>

record host =
  py_int :: "string \<Rightarrow> int option"
  search_cursor :: "string \<Rightarrow> int list option"
  to_polygons :: "string \<Rightarrow> (int \<times> int) list \<Rightarrow> feature list option"
  validate_table_name :: "string \<Rightarrow> string"

datatype event =
    AddWarning string
  | AddMessage string
  | CopyFeatures string "feature list"

type_synonym outcome = "event list \<times> py_error option"

definition skip_warning :: "string \<Rightarrow> string" where
  "skip_warning raster_name = ''Skipping '' @ raster_name @ '': No water_class value specified.''"

text \<open>Lines 63 to 112: the work on one record whose water class has been read.\<close>

definition create_lakes :: "host \<Rightarrow> real \<Rightarrow> nat \<Rightarrow> nat \<Rightarrow> string \<Rightarrow> int \<Rightarrow> outcome" where
  "create_lakes h area_threshold total_n idx raster_name water_class =
     (case raster_to_lake_name raster_name of
        Inl e \<Rightarrow> ([], Some e)
      | Inr output_name \<Rightarrow>
          let progress = AddMessage (''Processing '' @ str_nat idx @ '' of '' @ str_nat total_n
                                       @ '': '' @ raster_name)
          in case search_cursor h raster_name of
               None \<Rightarrow> ([progress], Some RuntimeError)
             | Some cursor_values \<Rightarrow>
                 let remap = build_remap water_class cursor_values
                 in case to_polygons h raster_name remap of
                      None \<Rightarrow> ([progress], Some ExecuteError)
                    | Some clipped_polygons \<Rightarrow>
                        let final_output = validate_table_name h output_name
                        in ([progress,
                             CopyFeatures final_output (area_filter area_threshold clipped_polygons),
                             AddMessage (''--> Saved: '' @ output_name)], None))"

text \<open>Lines 54 to 62, then \<open>create_lakes\<close>: one pass of the loop body.\<close>

definition process_row :: "host \<Rightarrow> real \<Rightarrow> nat \<Rightarrow> nat \<Rightarrow> csv_row \<Rightarrow> outcome" where
  "process_row h area_threshold total_n idx row =
     (case getitem row ''classified_raster'' of
        Inl e \<Rightarrow> ([], Some e)
      | Inr raster_name \<Rightarrow>
          (case getitem row ''water_class'' of
             Inl e \<Rightarrow> ([], Some e)
           | Inr None \<Rightarrow> ([], Some AttributeError)
           | Inr (Some water_class) \<Rightarrow>
               if str_strip water_class = []
               then ([AddWarning (skip_warning (fmt raster_name))], None)
               else (case py_int h water_class of
                       None \<Rightarrow> ([], Some ValueError)
                     | Some wc \<Rightarrow>
                         (case raster_name of
                            None \<Rightarrow> ([], Some AttributeError)
                          | Some name \<Rightarrow> create_lakes h area_threshold total_n idx name wc))))"

text \<open>The loop of line 53: an exception ends it, a skipped or finished record lets it
  go on with the next one.\<close>

fun reader_loop :: "host \<Rightarrow> real \<Rightarrow> nat \<Rightarrow> nat \<Rightarrow> csv_row list \<Rightarrow> outcome" where
  "reader_loop h area_threshold total_n idx [] = ([], None)"
| "reader_loop h area_threshold total_n idx (row # rest) =
     (case process_row h area_threshold total_n idx row of
        (evs, Some e) \<Rightarrow> (evs, Some e)
      | (evs, None) \<Rightarrow>
          (case reader_loop h area_threshold total_n (Suc idx) rest of
             (evs', r) \<Rightarrow> (evs @ evs', r)))"

definition stage2 :: "host \<Rightarrow> real \<Rightarrow> csv_row list \<Rightarrow> outcome" where
  "stage2 h area_threshold reader = reader_loop h area_threshold (length reader) 1 reader"

section \<open>Example inputs\<close>



text \<open>Two clipped polygons, of 200 and 250 square metres, and a host for Stage 2 whose
  rasters hold the values 1, 2 and 3 and whose integer conversion knows the text
  \<^verbatim>\<open>2\<close> only.\<close>

definition pond :: feature where
  "pond = \<lparr>fid = 1, area_geodesic = 200, attrs = Map.empty\<rparr>"

definition lake :: feature where
  "lake = \<lparr>fid = 2, area_geodesic = 250, attrs = Map.empty\<rparr>"

definition example_host :: host where
  "example_host =
     \<lparr>py_int = (\<lambda>s. if s = ''2'' then Some 2 else None),
      search_cursor = (\<lambda>_. Some [1, 2, 3, 2, 1]),
      to_polygons = (\<lambda>_ _. Some [pond, lake]),
      validate_table_name = (\<lambda>name. name)\<rparr>"

text \<open>A host whose geoprocessing raises, and two tracking tables with one annotated
  record: the first ends with a line break, the second does not.\<close>

definition failing_host :: host where
  "failing_host = example_host\<lparr>to_polygons := (\<lambda>_ _. None)\<rparr>"



definition blank_row :: csv_row where
  "blank_row = [(''classified_raster'', Some ''Sitka_1950_6class''), (''water_class'', Some [])]"

definition spaces_row :: csv_row where
  "spaces_row = [(''classified_raster'', Some ''Sitka_1950_6class''), (''water_class'', Some ''  '')]"

definition ready_row :: csv_row where
  "ready_row = [(''classified_raster'', Some ''Juneau_1948_6class''), (''water_class'', Some ''2'')]"

section \<open>Facts about the string primitives\<close>

lemma split_acc_not_Nil: "split_acc sep cur s \<noteq> []"
  by (induction s arbitrary: cur) auto

lemma str_split_not_Nil: "str_split s sep \<noteq> []"
  by (simp add: str_split_def split_acc_not_Nil)

lemma split_acc_no_sep: "sep \<notin> set s \<Longrightarrow> split_acc sep cur s = [cur @ s]"
  by (induction s arbitrary: cur) auto

lemma split_acc_append:
  "split_acc sep cur (a @ sep # b) = split_acc sep cur a @ split_acc sep [] b"
  by (induction a arbitrary: cur) auto

lemma str_join_Cons: "xs \<noteq> [] \<Longrightarrow> str_join sep (x # xs) = x @ sep @ str_join sep xs"
  by (cases xs) auto

lemma str_join_split_acc: "str_join [sep] (split_acc sep cur s) = cur @ s"
  by (induction s arbitrary: cur) (auto simp: str_join_Cons split_acc_not_Nil)

lemma str_rsplit1_last:
  assumes "sep \<notin> set b"
  shows "str_rsplit1 (a @ sep # b) sep = [a, b]"
proof -
  have "dropWhile (\<lambda>c. c \<noteq> sep) (rev b @ sep # rev a) = sep # rev a"
    using assms by (subst dropWhile_append2) auto
  moreover have "takeWhile (\<lambda>c. c \<noteq> sep) (rev b @ sep # rev a) = rev b"
    using assms by (subst takeWhile_append2) auto
  ultimately show ?thesis by (simp add: str_rsplit1_def)
qed

lemma butlast_split_last:
  assumes "sep \<notin> set b"
  shows "str_join [sep] (butlast (str_split (a @ sep # b) sep)) = a"
proof -
  have "str_split (a @ sep # b) sep = split_acc sep [] a @ [b]"
    using assms by (simp add: str_split_def split_acc_append split_acc_no_sep)
  then show ?thesis by (simp add: str_join_split_acc)
qed

lemma find_first:
  "i < length xs \<Longrightarrow> P (xs ! i) \<Longrightarrow> (\<forall>j<i. \<not> P (xs ! j)) \<Longrightarrow> List.find P xs = Some (xs ! i)"
proof (induction xs arbitrary: i)
  case Nil
  then show ?case by simp
next
  case (Cons x xs)
  show ?case
  proof (cases i)
    case 0
    with Cons.prems show ?thesis by simp
  next
    case (Suc k)
    with Cons.prems have "\<not> P x" by auto
    moreover have "List.find P xs = Some (xs ! k)"
      using Cons.prems Suc by (intro Cons.IH) auto
    ultimately show ?thesis using Suc by simp
  qed
qed

lemma list_index_first:
  "i < length xs \<Longrightarrow> (\<forall>j<i. xs ! j \<noteq> xs ! i) \<Longrightarrow> list_index xs (xs ! i) = Inr i"
proof (induction xs arbitrary: i)
  case Nil
  then show ?case by simp
next
  case (Cons x xs)
  show ?case
  proof (cases i)
    case 0
    then show ?thesis by simp
  next
    case (Suc k)
    with Cons.prems have "x \<noteq> xs ! k" by auto
    moreover have "list_index xs (xs ! k) = Inr k"
      using Cons.prems Suc by (intro Cons.IH) auto
    ultimately show ?thesis using Suc by simp
  qed
qed

lemma slice_to_nonneg: "0 \<le> k \<Longrightarrow> slice_to xs k = take (nat k) xs"
  by (simp add: slice_to_def Let_def min_def)

lemma slice_to_minus1: "slice_to xs (- 1) = butlast xs"
  by (simp add: slice_to_def Let_def butlast_conv_take max_def nat_diff_distrib')

section \<open>Name derivation: \<open>extract_location_year\<close> and \<open>raster_to_lake_name\<close>\<close>

text \<open>When the first four-digit segment is at position \<open>i\<close>, it is the year that
  \<^verbatim>\<open>next\<close> finds and \<open>i\<close> is the index that \<^verbatim>\<open>parts.index(year)\<close> returns.\<close>

lemma year_at:
  assumes "i < length parts" and "fullmatch_d4 (parts ! i)"
    and "\<forall>j<i. \<not> fullmatch_d4 (parts ! j)"
  shows "next_or fullmatch_d4 parts d = parts ! i"
    and "list_index parts (parts ! i) = Inr i"
proof -
  show "next_or fullmatch_d4 parts d = parts ! i"
    using assms by (simp add: next_or_def find_first)
  have "\<forall>j<i. parts ! j \<noteq> parts ! i" using assms by metis
  then show "list_index parts (parts ! i) = Inr i"
    using assms(1) by (rule list_index_first[rotated])
qed


text \<open>
  C1. Let the segments of a raster name be its parts between underscores, and let the
  first segment made of exactly four digits be at index \<open>i\<close> with \<open>2 \<le> i\<close>. Then
  \<open>extract_location_year\<close> returns the segments before index \<open>i - 1\<close> (all those before
  the segment that precedes the year), joined with underscores, then an underscore and
  the year. The example \<^verbatim>\<open>Sitka_A12_1950_topo\<close> of the claim is the instance proved right
  after.
\<close>

theorem extract_location_year_drops_sheet:
  assumes "parts = str_split raster_name CHR ''_''"
    and "i < length parts" and "fullmatch_d4 (parts ! i)"
    and "\<forall>j<i. \<not> fullmatch_d4 (parts ! j)"
    and "2 \<le> i"
  shows "extract_location_year raster_name =
           Inr (str_join ''_'' (take (i - 1) parts) @ ''_'' @ parts ! i)"
proof -
  have "slice_to parts (int i - 1) = take (i - 1) parts"
    using assms(5) by (simp add: slice_to_nonneg nat_diff_distrib')
  then show ?thesis
    using year_at[OF assms(2,3,4)] assms(1)
    by (simp add: extract_location_year_def location_of_def Let_def)
qed

theorem extract_location_year_drops_sheet_witness:
  "extract_location_year ''Sitka_A12_1950_topo'' = Inr ''Sitka_1950''"
  using extract_location_year_drops_sheet
          [of "[''Sitka'', ''A12'', ''1950'', ''topo'']" "''Sitka_A12_1950_topo''" 2]
  by (simp add: str_split_def fullmatch_d4_def is_digit_def less_Suc_eq numeral_2_eq_2)

text \<open>
  C7. \<open>extract_location_year\<close> returns a string for every input string: no exception
  leaves it. When no segment of the name is made of exactly four digits, the returned
  string ends in \<^verbatim>\<open>_unknown\<close>.
\<close>

theorem extract_location_year_total:
  "(\<exists>s. extract_location_year raster_name = Inr s) \<and>
   (\<not> list_ex fullmatch_d4 (str_split raster_name CHR ''_'') \<longrightarrow>
      (\<exists>location. extract_location_year raster_name = Inr (location @ ''_unknown'')))"
proof (intro conjI impI)
  show "\<exists>s. extract_location_year raster_name = Inr s"
    by (simp add: extract_location_year_def Let_def)
  assume "\<not> list_ex fullmatch_d4 (str_split raster_name CHR ''_'')"
  then have "List.find fullmatch_d4 (str_split raster_name CHR ''_'') = None"
    by (simp add: find_None_iff list_ex_iff)
  then show "\<exists>location. extract_location_year raster_name = Inr (location @ ''_unknown'')"
    by (simp add: extract_location_year_def Let_def next_or_def)
qed

theorem extract_location_year_total_witness:
  "\<not> list_ex fullmatch_d4 (str_split ''Sitka_topo'' CHR ''_'') \<and>
   extract_location_year ''Sitka_topo'' = Inr ''UnknownLoc_unknown'' \<and>
   (\<exists>location. extract_location_year ''Sitka_topo'' = Inr (location @ ''_unknown''))"
proof -
  have h: "\<not> list_ex fullmatch_d4 (str_split ''Sitka_topo'' CHR ''_'')"
    by (simp add: str_split_def fullmatch_d4_def is_digit_def)
  have v: "extract_location_year ''Sitka_topo'' = Inr ''UnknownLoc_unknown''"
    by (simp add: extract_location_year_def str_split_def fullmatch_d4_def is_digit_def
        next_or_def location_of_def Let_def)
  from extract_location_year_total[of "''Sitka_topo''"] h
  have "\<exists>location. extract_location_year ''Sitka_topo'' = Inr (location @ ''_unknown'')"
    by blast
  with h v show ?thesis by blast
qed

text \<open>
  C10. When the first segment of the name is made of four digits (the year is at index
  0), the stop \<open>0 - 1\<close> of the slice counts from the end: the location is made of all
  segments but the last, which start with the year itself as soon as the name has two
  segments, as in \<^verbatim>\<open>1950_topo\<close>, which gives \<^verbatim>\<open>1950_1950\<close>. When the first four-digit
  segment is the second one (index 1), the location is empty and the result is an
  underscore followed by the year.
\<close>

theorem extract_location_year_year_first_or_second:
  assumes "parts = str_split raster_name CHR ''_''"
  shows "(fullmatch_d4 (hd parts) \<longrightarrow>
            slice_to parts (int 0 - 1) = butlast parts \<and>
            extract_location_year raster_name =
              Inr (str_join ''_'' (butlast parts) @ ''_'' @ hd parts) \<and>
            (1 < length parts \<longrightarrow> hd (butlast parts) = hd parts)) \<and>
         (\<not> fullmatch_d4 (hd parts) \<and> 1 < length parts \<and> fullmatch_d4 (parts ! 1) \<longrightarrow>
            slice_to parts (int 1 - 1) = [] \<and>
            extract_location_year raster_name = Inr (''_'' @ parts ! 1))"
proof (intro conjI impI)
  show "slice_to parts (int 1 - 1) = []" by (simp add: slice_to_def)
  have ne: "parts \<noteq> []" using assms by (simp add: str_split_not_Nil)
  then have len: "0 < length parts" by simp
  show "slice_to parts (int 0 - 1) = butlast parts" by (simp add: slice_to_minus1)
  {
    assume y: "fullmatch_d4 (hd parts)"
    then have "fullmatch_d4 (parts ! 0)" using ne by (simp add: hd_conv_nth)
    from year_at[OF len this] have "next_or fullmatch_d4 parts ''unknown'' = hd parts"
      and "list_index parts (hd parts) = Inr 0" using ne by (simp_all add: hd_conv_nth)
    then show "extract_location_year raster_name =
              Inr (str_join ''_'' (butlast parts) @ ''_'' @ hd parts)"
      using assms by (simp add: extract_location_year_def location_of_def Let_def slice_to_minus1)
  }
  {
    assume "1 < length parts"
    then show "hd (butlast parts) = hd parts" by (cases parts) auto
  }
  {
    assume a: "\<not> fullmatch_d4 (hd parts) \<and> 1 < length parts \<and> fullmatch_d4 (parts ! 1)"
    then have "\<forall>j<1. \<not> fullmatch_d4 (parts ! j)" using ne by (simp add: hd_conv_nth)
    with a have "next_or fullmatch_d4 parts ''unknown'' = parts ! 1"
      and "list_index parts (parts ! 1) = Inr 1" using year_at[of 1 parts] by simp_all
    then show "extract_location_year raster_name = Inr (''_'' @ parts ! 1)"
      using assms by (simp add: extract_location_year_def location_of_def Let_def slice_to_def)
  }
qed

theorem extract_location_year_year_first_or_second_witness:
  "extract_location_year ''1950_topo'' = Inr ''1950_1950'' \<and>
   extract_location_year ''Sitka_1950'' = Inr ''_1950''"
  using extract_location_year_year_first_or_second [of "[''1950'', ''topo'']" "''1950_topo''"]
    extract_location_year_year_first_or_second [of "[''Sitka'', ''1950'']" "''Sitka_1950''"]
  by (simp add: str_split_def fullmatch_d4_def is_digit_def)

text \<open>
  C2, as the code has it. \<open>raster_to_lake_name\<close> removes what follows the last underscore
  of the name, with that underscore, and appends \<^verbatim>\<open>_Lakes\<close>; a name without an underscore
  is kept whole. So \<^verbatim>\<open>Sitka_1950_6class\<close> gives \<^verbatim>\<open>Sitka_1950_Lakes\<close>, and the name
  \<^verbatim>\<open>Sitka_1950_Lakes\<close> gives \<^verbatim>\<open>Sitka_1950_Lakes\<close> again: its last segment is removed and
  the suffix is appended as for any other name. The result is never \<^verbatim>\<open>Sitka_1950\<close>.
\<close>

theorem raster_to_lake_name_strips_last:
  "raster_to_lake_name raster_name =
     Inr ((if CHR ''_'' \<in> set raster_name
           then str_join ''_'' (butlast (str_split raster_name CHR ''_''))
           else raster_name) @ ''_Lakes'') \<and>
   raster_to_lake_name ''Sitka_1950_6class'' = Inr ''Sitka_1950_Lakes'' \<and>
   raster_to_lake_name ''Sitka_1950_Lakes'' = Inr ''Sitka_1950_Lakes''"
proof (intro conjI)
  show "raster_to_lake_name raster_name =
     Inr ((if CHR ''_'' \<in> set raster_name
           then str_join ''_'' (butlast (str_split raster_name CHR ''_''))
           else raster_name) @ ''_Lakes'')"
  proof (cases "CHR ''_'' \<in> set raster_name")
    case True
    then obtain a b where ab: "raster_name = a @ CHR ''_'' # b" "CHR ''_'' \<notin> set b"
      by (auto dest: split_list_last)
    then show ?thesis
      using True
      by (simp add: raster_to_lake_name_def str_rsplit1_last butlast_split_last item0_def)
  next
    case False
    then show ?thesis by (simp add: raster_to_lake_name_def str_rsplit1_def item0_def)
  qed
  show "raster_to_lake_name ''Sitka_1950_6class'' = Inr ''Sitka_1950_Lakes''"
    by (simp add: raster_to_lake_name_def str_rsplit1_def item0_def)
  show "raster_to_lake_name ''Sitka_1950_Lakes'' = Inr ''Sitka_1950_Lakes''"
    by (simp add: raster_to_lake_name_def str_rsplit1_def item0_def)
qed

theorem raster_to_lake_name_strips_last_witness:
  "raster_to_lake_name ''Juneau_B1_8class'' = Inr ''Juneau_B1_Lakes'' \<and>
   raster_to_lake_name ''Juneau'' = Inr ''Juneau_Lakes''"
  using raster_to_lake_name_strips_last [of "''Juneau_B1_8class''"]
    raster_to_lake_name_strips_last [of "''Juneau''"]
  by (simp add: str_split_def)

text \<open>The claim made of the already suffixed name, that the result is \<^verbatim>\<open>Sitka_1950\<close>,
  does not hold.\<close>

theorem raster_to_lake_name_suffixed_counterexample:
  "raster_to_lake_name ''Sitka_1950_Lakes'' \<noteq> Inr ''Sitka_1950''"
  by (simp add: raster_to_lake_name_def str_rsplit1_def item0_def)

section \<open>Reading the tracking table back\<close>


lemma writerow_pair: "writerow [name, []] = quote_field name @ '','' @ [cr, lf]"
  by (simp add: writerow_def quote_field_def needs_quote_def)

lemma chars_distinct: "cr \<noteq> lf" "cr \<noteq> dquote" "cr \<noteq> CHR '',''" "lf \<noteq> dquote"
  "lf \<noteq> CHR '',''" "dquote \<noteq> CHR '',''"
  by (simp_all add: cr_def lf_def dquote_def)

lemma start_field_tidy: "tidy (fst (start_field p c))"
  by (simp add: tidy_def start_field_def end_row_def new_record_def)

lemma process_char_tidy: "tidy (fst (process_char p c))"
proof (cases "p_mode p")
  case StartRecord
  then show ?thesis using start_field_tidy[of p c]
    by (simp add: process_char_def) (simp add: tidy_def new_record_def)
next
  case AfterCR
  then show ?thesis using start_field_tidy[of p c]
    by (simp add: process_char_def) (simp add: tidy_def new_record_def)
next
  case StartField
  then show ?thesis using start_field_tidy[of p c] by (simp add: process_char_def)
next
  case InField
  then show ?thesis
    by (simp add: process_char_def tidy_def end_row_def new_record_def add_char_def)
next
  case InQuoted
  then show ?thesis by (simp add: process_char_def tidy_def add_char_def)
next
  case QuoteInQuoted
  then show ?thesis
    by (simp add: process_char_def tidy_def end_row_def new_record_def add_char_def)
qed

lemma feed_append:
  "feed p (a @ b) =
     (case feed p a of (ra, q) \<Rightarrow> (case feed q b of (rb, q') \<Rightarrow> (ra @ rb, q')))"
  by (induction a arbitrary: p) (auto split: prod.splits)

lemma feed_tidy: "tidy p \<Longrightarrow> tidy (snd (feed p inp))"
proof (induction inp arbitrary: p)
  case Nil
  then show ?case by simp
next
  case (Cons c cs)
  have "tidy (fst (process_char p c))" by (rule process_char_tidy)
  from Cons.IH[OF this] show ?case by (auto split: prod.splits)
qed

lemma tidy_start: "tidy (new_record m)"
  by (simp add: tidy_def new_record_def)

lemma ends_row_state:
  assumes "ends_row inp"
  shows "snd (feed (new_record StartRecord) inp) = new_record StartRecord \<or>
         snd (feed (new_record StartRecord) inp) = new_record AfterCR"
proof -
  have "tidy (snd (feed (new_record StartRecord) inp))"
    by (rule feed_tidy[OF tidy_start])
  with assms show ?thesis by (auto simp: tidy_def ends_row_def)
qed

text \<open>Reading back a field that was written without quotes.\<close>

lemma feed_plain:
  "p_mode p = InField \<Longrightarrow> \<not> needs_quote s \<Longrightarrow>
   feed p (s @ rest) = feed (p\<lparr>p_field := p_field p @ s\<rparr>) rest"
proof (induction s arbitrary: p)
  case Nil
  then show ?case by simp
next
  case (Cons c s)
  from Cons.prems have c: "c \<noteq> cr" "c \<noteq> lf" "c \<noteq> CHR '',''" "c \<noteq> dquote"
    and s: "\<not> needs_quote s"
    by (auto simp: needs_quote_def)
  have "process_char p c = (add_char c p, None)"
    using Cons.prems(1) c by (simp add: process_char_def)
  moreover have "p_mode (add_char c p) = InField"
    using Cons.prems(1) by (simp add: add_char_def)
  ultimately show ?case
    using Cons.IH[OF _ s, of "add_char c p"] by (simp add: add_char_def)
qed

text \<open>Reading back the inside of a quoted field, where every double quote was doubled.\<close>

lemma feed_quoted:
  "p_mode p = InQuoted \<Longrightarrow>
   feed p (concat (map (\<lambda>c. if c = dquote then [dquote, dquote] else [c]) s) @ rest) =
     feed (p\<lparr>p_field := p_field p @ s\<rparr>) rest"
proof (induction s arbitrary: p)
  case Nil
  then show ?case by simp
next
  case (Cons c s)
  show ?case
  proof (cases "c = dquote")
    case True
    have 1: "process_char p dquote = (p\<lparr>p_mode := QuoteInQuoted\<rparr>, None)"
      using Cons.prems by (simp add: process_char_def)
    have 2: "process_char (p\<lparr>p_mode := QuoteInQuoted\<rparr>) dquote = (add_char dquote p, None)"
      using Cons.prems by (simp add: process_char_def add_char_def)
    have "p_mode (add_char dquote p) = InQuoted"
      using Cons.prems by (simp add: add_char_def)
    from Cons.IH[OF this] show ?thesis
      using True 1 2 by (simp add: add_char_def)
  next
    case False
    have 1: "process_char p c = (add_char c p, None)"
      using Cons.prems False by (simp add: process_char_def)
    have "p_mode (add_char c p) = InQuoted"
      using Cons.prems by (simp add: add_char_def)
    from Cons.IH[OF this] show ?thesis
      using False 1 by (simp add: add_char_def)
  qed
qed

text \<open>The end of a tracking row: the comma, the empty water class, CR LF.\<close>

lemma feed_row_end:
  assumes "p_mode p = InField \<or> p_mode p = QuoteInQuoted \<or> p_mode p = StartField"
    and "p_row p = []"
  shows "feed p ('','' @ [cr, lf]) = ([[p_field p, []]], new_record StartRecord)"
  using assms chars_distinct
  by (auto simp: process_char_def start_field_def end_row_def save_field_def new_record_def)

lemma feed_quote_field:
  assumes "m = StartRecord \<or> m = AfterCR"
  shows "feed (new_record m) (quote_field name @ '','' @ [cr, lf]) =
           ([[name, []]], new_record StartRecord)"
proof (cases "needs_quote name")
  case True
  let ?p = "(new_record m)\<lparr>p_mode := InQuoted\<rparr>"
  have 1: "process_char (new_record m) dquote = (?p, None)"
    using assms chars_distinct
    by (auto simp: process_char_def start_field_def new_record_def)
  have 2: "feed ?p (concat (map (\<lambda>c. if c = dquote then [dquote, dquote] else [c]) name)
                     @ (dquote # '','' @ [cr, lf])) =
           feed (?p\<lparr>p_field := name\<rparr>) (dquote # '','' @ [cr, lf])"
    using feed_quoted[of ?p name] by (simp add: new_record_def)
  have 3: "process_char (?p\<lparr>p_field := name\<rparr>) dquote =
             (?p\<lparr>p_field := name, p_mode := QuoteInQuoted\<rparr>, None)"
    by (simp add: process_char_def)
  have 4: "feed (?p\<lparr>p_field := name, p_mode := QuoteInQuoted\<rparr>) ('','' @ [cr, lf]) =
             ([[name, []]], new_record StartRecord)"
    using feed_row_end[of "?p\<lparr>p_field := name, p_mode := QuoteInQuoted\<rparr>"]
    by (simp add: new_record_def)
  have "feed (new_record m) (dquote # concat (map (\<lambda>c. if c = dquote then [dquote, dquote] else [c]) name)
                     @ (dquote # '','' @ [cr, lf])) = ([[name, []]], new_record StartRecord)"
    using 1 2 3 4 by simp
  then show ?thesis using True by (simp add: quote_field_def)
next
  case False
  show ?thesis
  proof (cases name)
    case Nil
    have "feed (new_record m) ('','' @ [cr, lf]) = ([[[], []]], new_record StartRecord)"
      using assms chars_distinct
      by (auto simp: process_char_def start_field_def end_row_def save_field_def new_record_def)
    then show ?thesis using Nil False by (simp add: quote_field_def)
  next
    case (Cons c s)
    from False Cons have c: "c \<noteq> cr" "c \<noteq> lf" "c \<noteq> CHR '',''" "c \<noteq> dquote"
      and s: "\<not> needs_quote s"
      by (auto simp: needs_quote_def)
    let ?p = "(new_record m)\<lparr>p_field := [c], p_mode := InField\<rparr>"
    have 1: "process_char (new_record m) c = (?p, None)"
      using assms c
      by (auto simp: process_char_def start_field_def new_record_def add_char_def)
    have 2: "feed ?p (s @ '','' @ [cr, lf]) = feed (?p\<lparr>p_field := c # s\<rparr>) ('','' @ [cr, lf])"
      using feed_plain[OF _ s, of ?p] by simp
    have 3: "feed (?p\<lparr>p_field := c # s\<rparr>) ('','' @ [cr, lf]) =
              ([[c # s, []]], new_record StartRecord)"
      using feed_row_end[of "?p\<lparr>p_field := c # s\<rparr>"] by (simp add: new_record_def)
    have "feed (new_record m) (c # s @ '','' @ [cr, lf]) = ([[c # s, []]], new_record StartRecord)"
      using 1 2 3 by simp
    then show ?thesis using Cons False by (simp add: quote_field_def)
  qed
qed

lemma tracking_row_fields: "tracking_row nc r = writerow (tracking_fields nc r)"
  by (simp add: tracking_row_def)

lemma feed_tracking_row:
  assumes "m = StartRecord \<or> m = AfterCR"
  shows "feed (new_record m) (tracking_row nc r) = ([tracking_fields nc r], new_record StartRecord)"
  using feed_quote_field[OF assms]
  by (simp add: tracking_row_def tracking_fields_def writerow_pair)

lemma feed_tracking_rows:
  assumes "m = StartRecord \<or> m = AfterCR"
  shows "feed (new_record m) (concat (map (tracking_row nc) rs)) =
           (map (tracking_fields nc) rs, new_record (if rs = [] then m else StartRecord))"
  using assms
proof (induction rs arbitrary: m)
  case Nil
  then show ?case by simp
next
  case (Cons r rs)
  have 1: "feed (new_record m) (tracking_row nc r) =
             ([tracking_fields nc r], new_record StartRecord)"
    using Cons.prems by (rule feed_tracking_row)
  have 2: "feed (new_record StartRecord) (concat (map (tracking_row nc) rs)) =
           (map (tracking_fields nc) rs, new_record (if rs = [] then StartRecord else StartRecord))"
    by (rule Cons.IH) simp
  show ?case using 1 2 by (simp add: feed_append)
qed




lemma ends_row_Nil: "ends_row []"
  by (simp add: ends_row_def new_record_def)


lemma ends_row_append_rows:
  assumes "ends_row old"
  shows "ends_row (old @ concat (map (tracking_row nc) rs))"
proof -
  obtain ra q where f: "feed (new_record StartRecord) old = (ra, q)"
    by (cases "feed (new_record StartRecord) old")
  from ends_row_state[OF assms] f obtain m where
    m: "m = StartRecord \<or> m = AfterCR" and q: "q = new_record m"
    by auto
  have "feed (new_record StartRecord) (old @ concat (map (tracking_row nc) rs)) =
          (ra @ map (tracking_fields nc) rs, new_record (if rs = [] then m else StartRecord))"
    using f q feed_tracking_rows[OF m, of nc rs] by (simp add: feed_append)
  then show ?thesis using m by (auto simp: ends_row_def new_record_def)
qed





section \<open>Stage 1 and the tracking table\<close>

















section \<open>Stage 2: skipped records, the remap and the area filter\<close>

lemma map_of_const: "map_of (map (\<lambda>v. (v, c)) xs) v = (if v \<in> set xs then Some c else None)"
  by (induction xs) auto

lemma all_space_strip: "list_all is_space s \<Longrightarrow> str_strip s = []"
proof -
  assume "list_all is_space s"
  then have d: "dropWhile is_space s = []" by (induction s) auto
  show ?thesis unfolding str_strip_def d by simp
qed

lemma str_strip_Nil: "str_strip [] = []"
  by (simp add: str_strip_def)

lemma getitem_Some: "map_of row k = Some v \<Longrightarrow> getitem row k = Inr v"
  by (simp add: getitem_def)

text \<open>The work on a record starts with a progress message and never emits a warning.\<close>

lemma create_lakes_events:
  "fst (create_lakes h thr n idx name wc) = [] \<or>
   (\<exists>m evs. fst (create_lakes h thr n idx name wc) = AddMessage m # evs \<and>
        (\<forall>w. AddWarning w \<notin> set evs))"
  by (simp add: create_lakes_def Let_def split: sum.splits option.splits)

lemma create_lakes_no_skip:
  "create_lakes h thr n idx name wc \<noteq> ([AddWarning m], None)"
  using create_lakes_events[of h thr n idx name wc] by auto

lemma create_lakes_no_warning:
  "AddWarning m \<notin> set (fst (create_lakes h thr n idx name wc))"
  using create_lakes_events[of h thr n idx name wc] by auto

lemma process_row_blank:
  assumes "map_of row ''classified_raster'' = Some raster_name"
    and "map_of row ''water_class'' = Some (Some water_class)"
    and "str_strip water_class = []"
  shows "process_row h thr n idx row = ([AddWarning (skip_warning (fmt raster_name))], None)"
  using assms by (simp add: process_row_def getitem_Some)

lemma process_row_nonblank:
  assumes "map_of row ''classified_raster'' = Some (Some raster_name)"
    and "map_of row ''water_class'' = Some (Some water_class)"
    and "str_strip water_class \<noteq> []"
  shows "process_row h thr n idx row =
        (case py_int h water_class of None \<Rightarrow> ([], Some ValueError)
         | Some wc \<Rightarrow> create_lakes h thr n idx raster_name wc)"
  using assms by (simp add: process_row_def getitem_Some split: option.splits)

text \<open>When no pass raises, the loop makes one pass on every record, in the order of
  the table, numbered from \<open>idx\<close> on.\<close>

lemma reader_loop_passes:
  "list_all (\<lambda>(i, row). snd (process_row h thr n i row) = None) (List.enumerate idx rows) \<Longrightarrow>
   reader_loop h thr n idx rows =
     (concat (map (\<lambda>(i, row). fst (process_row h thr n i row)) (List.enumerate idx rows)), None)"
proof (induction rows arbitrary: idx)
  case Nil
  then show ?case by simp
next
  case (Cons row rows)
  from Cons.prems have 1: "snd (process_row h thr n idx row) = None"
    and 2: "list_all (\<lambda>(i, row). snd (process_row h thr n i row) = None)
              (List.enumerate (Suc idx) rows)"
    by simp_all
  from 1 obtain evs where p: "process_row h thr n idx row = (evs, None)"
    by (cases "process_row h thr n idx row") auto
  show ?case
    using Cons.IH[OF 2] p by simp
qed

lemma area_filter_eq:
 "area_filter t ps =
     map (\<lambda>p. p\<lparr>attrs := (attrs p)(''poly_area'' \<mapsto> Some (area_geodesic p))\<rparr>)
       (filter (\<lambda>p. area_geodesic p > t) ps)"
  by (simp add: area_filter_def Let_def make_feature_layer_def add_field_def
      calculate_area_geodesic_def select_new_def area_clause_def copy_features_def
      filter_map comp_def)

text \<open>A record that is processed: the lake name never fails, the first event is the
  progress message, and when the cursor and the geoprocessing return, the filtered
  polygons are saved and the loop goes on.\<close>

lemma raster_to_lake_name_Inr:
  "raster_to_lake_name name = Inr (projr (raster_to_lake_name name))"
  by (simp add: raster_to_lake_name_def item0_def str_rsplit1_def)

lemma create_lakes_starts:
  "\<exists>evs err. create_lakes h thr n idx name wc =
     (AddMessage (''Processing '' @ str_nat idx @ '' of '' @ str_nat n @ '': '' @ name) # evs, err)"
  by (subst create_lakes_def, subst raster_to_lake_name_Inr)
     (simp add: Let_def split: option.splits)

lemma create_lakes_ok:
  assumes "search_cursor h name = Some vs"
    and "to_polygons h name (build_remap wc vs) = Some polys"
  shows "create_lakes h thr n idx name wc =
     ([AddMessage (''Processing '' @ str_nat idx @ '' of '' @ str_nat n @ '': '' @ name),
       CopyFeatures (validate_table_name h (projr (raster_to_lake_name name)))
         (area_filter thr polys),
       AddMessage (''--> Saved: '' @ projr (raster_to_lake_name name))], None)"
  using assms
  by (subst create_lakes_def, subst raster_to_lake_name_Inr) (simp add: Let_def)

lemma reader_loop_goes_on:
  "process_row h thr n idx row = (evs, None) \<Longrightarrow>
   reader_loop h thr n idx (row # rest) =
     (evs @ fst (reader_loop h thr n (Suc idx) rest), snd (reader_loop h thr n (Suc idx) rest))"
  by (simp split: prod.splits)

lemma reader_loop_stops:
  "snd (process_row h thr n idx row) = Some e \<Longrightarrow>
   reader_loop h thr n idx (row # rest) = (fst (process_row h thr n idx row), Some e)"
  by (cases "process_row h thr n idx row") simp

lemma str_nat_small: "str_nat 1 = ''1''" "str_nat 2 = ''2''" "str_nat 3 = ''3''"
  "str_nat (Suc 0) = ''1''" "str_nat (Suc 1) = ''2''" "str_nat (Suc (Suc 0)) = ''2''"
  by code_simp+

lemma lake_name_Juneau: "raster_to_lake_name ''Juneau_1948_6class'' = Inr ''Juneau_1948_Lakes''"
  by (simp add: raster_to_lake_name_def str_rsplit1_def item0_def)

lemma ready_row_fields:
  "map_of ready_row ''classified_raster'' = Some (Some ''Juneau_1948_6class'')"
  "map_of ready_row ''water_class'' = Some (Some ''2'')"
  by (simp_all add: ready_row_def)

lemma blank_row_fields:
  "map_of blank_row ''classified_raster'' = Some (Some ''Sitka_1950_6class'')"
  "map_of blank_row ''water_class'' = Some (Some [])"
  by (simp_all add: blank_row_def)

lemma str_strip_2: "str_strip ''2'' \<noteq> []"
  by (simp add: str_strip_def is_space_def)

lemma process_ready_failing:
  "process_row failing_host 200 3 1 ready_row =
     ([AddMessage ''Processing 1 of 3: Juneau_1948_6class''], Some ExecuteError)"
proof -
  have "process_row failing_host 200 3 1 ready_row =
          create_lakes failing_host 200 3 1 ''Juneau_1948_6class'' 2"
    using process_row_nonblank[OF ready_row_fields str_strip_2, of failing_host 200 3 1]
    by (simp add: failing_host_def example_host_def)
  also have "\<dots> = ([AddMessage ''Processing 1 of 3: Juneau_1948_6class''], Some ExecuteError)"
    by (simp add: create_lakes_def lake_name_Juneau Let_def failing_host_def example_host_def
        str_nat_small)
  finally show ?thesis .
qed

text \<open>
  C4, as the code has it. Take a tracking record with the fields \<open>raster_name\<close> and
  \<open>water_class\<close> that the loop reaches, and call the water class blank when nothing is
  left of it after \<^verbatim>\<open>strip()\<close>, the test the code makes under its comment
  \<^verbatim>\<open>Skip if water class is blank\<close>. The pass of the loop on the record is the skip (one
  warning that names the raster, no exception, nothing else) exactly when the water class
  is blank, and it emits a warning exactly then; after a skip the loop goes on with the
  remaining records. When the water class is not blank and converts to the integer \<open>wc\<close>,
  the record is processed: the pass starts with the progress message, and when the search
  cursor and the geoprocessing return, it saves the polygons above the area threshold
  under the validated lake name, reports it, and the loop goes on with the remaining
  records. A pass that raises ends the loop with what that pass has emitted, so the
  records after it are neither skipped nor processed; when no pass raises, the loop makes
  one pass on every record, in the order of the table.
\<close>

theorem process_row_skips_iff_blank:
  assumes "map_of row ''classified_raster'' = Some (Some raster_name)"
    and "map_of row ''water_class'' = Some (Some water_class)"
  shows "((process_row h thr n idx row =
             ([AddWarning (''Skipping '' @ raster_name @ '': No water_class value specified.'')],
              None))
            = (str_strip water_class = [])) \<and>
         ((\<exists>m. AddWarning m \<in> set (fst (process_row h thr n idx row)))
            = (str_strip water_class = [])) \<and>
         (str_strip water_class = [] \<longrightarrow>
            reader_loop h thr n idx (row # rest) =
              (AddWarning (''Skipping '' @ raster_name @ '': No water_class value specified.'')
                 # fst (reader_loop h thr n (Suc idx) rest),
               snd (reader_loop h thr n (Suc idx) rest))) \<and>
         (\<forall>wc. str_strip water_class \<noteq> [] \<and> py_int h water_class = Some wc \<longrightarrow>
            (\<exists>evs err. process_row h thr n idx row =
               (AddMessage (''Processing '' @ str_nat idx @ '' of '' @ str_nat n @ '': ''
                             @ raster_name) # evs, err)) \<and>
            (\<forall>vs polys.
               search_cursor h raster_name = Some vs \<and>
               to_polygons h raster_name (build_remap wc vs) = Some polys \<longrightarrow>
               process_row h thr n idx row =
                 ([AddMessage (''Processing '' @ str_nat idx @ '' of '' @ str_nat n @ '': ''
                                @ raster_name),
                   CopyFeatures (validate_table_name h (projr (raster_to_lake_name raster_name)))
                     (area_filter thr polys),
                   AddMessage (''--> Saved: '' @ projr (raster_to_lake_name raster_name))],
                  None) \<and>
               reader_loop h thr n idx (row # rest) =
                 (AddMessage (''Processing '' @ str_nat idx @ '' of '' @ str_nat n @ '': ''
                               @ raster_name)
                  # CopyFeatures (validate_table_name h (projr (raster_to_lake_name raster_name)))
                      (area_filter thr polys)
                  # AddMessage (''--> Saved: '' @ projr (raster_to_lake_name raster_name))
                  # fst (reader_loop h thr n (Suc idx) rest),
                  snd (reader_loop h thr n (Suc idx) rest)))) \<and>
         (\<forall>e. snd (process_row h thr n idx row) = Some e \<longrightarrow>
            reader_loop h thr n idx (row # rest) = (fst (process_row h thr n idx row), Some e)) \<and>
         (\<forall>rows i0.
            list_all (\<lambda>(i, r). snd (process_row h thr n i r) = None) (List.enumerate i0 rows) \<longrightarrow>
            reader_loop h thr n i0 rows =
              (concat (map (\<lambda>(i, r). fst (process_row h thr n i r)) (List.enumerate i0 rows)),
               None))"
proof -
  have blank: "process_row h thr n idx row =
      ([AddWarning (''Skipping '' @ raster_name @ '': No water_class value specified.'')], None)"
    if "str_strip water_class = []"
    using process_row_blank[OF assms that, of h thr n idx] by (simp add: fmt_def skip_warning_def)
  note nonblank = process_row_nonblank[OF assms, of h thr n idx]
  have a: "(process_row h thr n idx row =
             ([AddWarning (''Skipping '' @ raster_name @ '': No water_class value specified.'')],
              None))
            = (str_strip water_class = [])"
  proof (cases "str_strip water_class = []")
    case True
    then show ?thesis using blank by simp
  next
    case False
    then show ?thesis
      using nonblank create_lakes_no_skip[of h thr n idx raster_name]
      by (cases "py_int h water_class") auto
  qed
  have b: "(\<exists>m. AddWarning m \<in> set (fst (process_row h thr n idx row)))
            = (str_strip water_class = [])"
  proof (cases "str_strip water_class = []")
    case True
    then show ?thesis using blank by simp
  next
    case False
    then show ?thesis
      using nonblank create_lakes_no_warning[of _ h thr n idx raster_name]
      by (cases "py_int h water_class") auto
  qed
  have c: "str_strip water_class = [] \<longrightarrow>
            reader_loop h thr n idx (row # rest) =
              (AddWarning (''Skipping '' @ raster_name @ '': No water_class value specified.'')
                 # fst (reader_loop h thr n (Suc idx) rest),
               snd (reader_loop h thr n (Suc idx) rest))"
    using reader_loop_goes_on[OF blank, of rest] by simp
  have d: "\<forall>wc. str_strip water_class \<noteq> [] \<and> py_int h water_class = Some wc \<longrightarrow>
            (\<exists>evs err. process_row h thr n idx row =
               (AddMessage (''Processing '' @ str_nat idx @ '' of '' @ str_nat n @ '': ''
                             @ raster_name) # evs, err)) \<and>
            (\<forall>vs polys.
               search_cursor h raster_name = Some vs \<and>
               to_polygons h raster_name (build_remap wc vs) = Some polys \<longrightarrow>
               process_row h thr n idx row =
                 ([AddMessage (''Processing '' @ str_nat idx @ '' of '' @ str_nat n @ '': ''
                                @ raster_name),
                   CopyFeatures (validate_table_name h (projr (raster_to_lake_name raster_name)))
                     (area_filter thr polys),
                   AddMessage (''--> Saved: '' @ projr (raster_to_lake_name raster_name))],
                  None) \<and>
               reader_loop h thr n idx (row # rest) =
                 (AddMessage (''Processing '' @ str_nat idx @ '' of '' @ str_nat n @ '': ''
                               @ raster_name)
                  # CopyFeatures (validate_table_name h (projr (raster_to_lake_name raster_name)))
                      (area_filter thr polys)
                  # AddMessage (''--> Saved: '' @ projr (raster_to_lake_name raster_name))
                  # fst (reader_loop h thr n (Suc idx) rest),
                  snd (reader_loop h thr n (Suc idx) rest)))"
  proof (intro allI impI conjI)
    fix wc
    assume w: "str_strip water_class \<noteq> [] \<and> py_int h water_class = Some wc"
    then have p: "process_row h thr n idx row = create_lakes h thr n idx raster_name wc"
      using nonblank by simp
    show "\<exists>evs err. process_row h thr n idx row =
               (AddMessage (''Processing '' @ str_nat idx @ '' of '' @ str_nat n @ '': ''
                             @ raster_name) # evs, err)"
      unfolding p by (rule create_lakes_starts)
    fix vs polys
    assume "search_cursor h raster_name = Some vs \<and>
               to_polygons h raster_name (build_remap wc vs) = Some polys"
    then have ok: "create_lakes h thr n idx raster_name wc =
     ([AddMessage (''Processing '' @ str_nat idx @ '' of '' @ str_nat n @ '': '' @ raster_name),
       CopyFeatures (validate_table_name h (projr (raster_to_lake_name raster_name)))
         (area_filter thr polys),
       AddMessage (''--> Saved: '' @ projr (raster_to_lake_name raster_name))], None)"
      using create_lakes_ok by blast
    show "process_row h thr n idx row =
                 ([AddMessage (''Processing '' @ str_nat idx @ '' of '' @ str_nat n @ '': ''
                                @ raster_name),
                   CopyFeatures (validate_table_name h (projr (raster_to_lake_name raster_name)))
                     (area_filter thr polys),
                   AddMessage (''--> Saved: '' @ projr (raster_to_lake_name raster_name))],
                  None)"
      unfolding p by (rule ok)
    show "reader_loop h thr n idx (row # rest) =
                 (AddMessage (''Processing '' @ str_nat idx @ '' of '' @ str_nat n @ '': ''
                               @ raster_name)
                  # CopyFeatures (validate_table_name h (projr (raster_to_lake_name raster_name)))
                      (area_filter thr polys)
                  # AddMessage (''--> Saved: '' @ projr (raster_to_lake_name raster_name))
                  # fst (reader_loop h thr n (Suc idx) rest),
                  snd (reader_loop h thr n (Suc idx) rest))"
      using reader_loop_goes_on[OF p[unfolded ok], of rest] by simp
  qed
  have e: "\<forall>e. snd (process_row h thr n idx row) = Some e \<longrightarrow>
            reader_loop h thr n idx (row # rest) = (fst (process_row h thr n idx row), Some e)"
    using reader_loop_stops by blast
  have f: "\<forall>rows i0.
            list_all (\<lambda>(i, r). snd (process_row h thr n i r) = None) (List.enumerate i0 rows) \<longrightarrow>
            reader_loop h thr n i0 rows =
              (concat (map (\<lambda>(i, r). fst (process_row h thr n i r)) (List.enumerate i0 rows)),
               None)"
    using reader_loop_passes by blast
  from a b c d e f show ?thesis by (intro conjI)
qed

theorem process_row_skips_iff_blank_witness:
  "map_of blank_row ''classified_raster'' = Some (Some ''Sitka_1950_6class'') \<and>
   map_of blank_row ''water_class'' = Some (Some []) \<and> str_strip [] = [] \<and>
   map_of ready_row ''classified_raster'' = Some (Some ''Juneau_1948_6class'') \<and>
   map_of ready_row ''water_class'' = Some (Some ''2'') \<and> str_strip ''2'' \<noteq> [] \<and>
   py_int example_host ''2'' = Some 2 \<and>
   search_cursor example_host ''Juneau_1948_6class'' = Some [1, 2, 3, 2, 1] \<and>
   to_polygons example_host ''Juneau_1948_6class'' (build_remap 2 [1, 2, 3, 2, 1]) =
     Some [pond, lake] \<and>
   stage2 example_host 200 [blank_row, ready_row] =
     ([AddWarning ''Skipping Sitka_1950_6class: No water_class value specified.'',
       AddMessage ''Processing 2 of 2: Juneau_1948_6class'',
       CopyFeatures ''Juneau_1948_Lakes'' (area_filter 200 [pond, lake]),
       AddMessage ''--> Saved: Juneau_1948_Lakes''], None)"
proof -
  have h: "py_int example_host ''2'' = Some 2"
    "search_cursor example_host ''Juneau_1948_6class'' = Some [1, 2, 3, 2, 1]"
    "to_polygons example_host ''Juneau_1948_6class'' (build_remap 2 [1, 2, 3, 2, 1]) =
       Some [pond, lake]"
    "validate_table_name example_host ''Juneau_1948_Lakes'' = ''Juneau_1948_Lakes''"
    by (simp_all add: example_host_def)
  have l: "projr (raster_to_lake_name ''Juneau_1948_6class'') = ''Juneau_1948_Lakes''"
    by (simp add: lake_name_Juneau)
  from process_row_skips_iff_blank [OF blank_row_fields, of example_host 200 2 1 "[ready_row]"] str_strip_Nil
  have 1: "reader_loop example_host 200 2 1 [blank_row, ready_row] =
     (AddWarning (''Skipping '' @ ''Sitka_1950_6class'' @ '': No water_class value specified.'')
        # fst (reader_loop example_host 200 2 (Suc 1) [ready_row]),
      snd (reader_loop example_host 200 2 (Suc 1) [ready_row]))"
    by blast
  from process_row_skips_iff_blank [OF ready_row_fields, of example_host 200 2 "Suc 1" "[]"] str_strip_2 h(1,2,3)
  have 2: "reader_loop example_host 200 2 (Suc 1) [ready_row] =
     (AddMessage (''Processing '' @ str_nat (Suc 1) @ '' of '' @ str_nat 2 @ '': ''
                   @ ''Juneau_1948_6class'')
      # CopyFeatures (validate_table_name example_host
                        (projr (raster_to_lake_name ''Juneau_1948_6class'')))
          (area_filter 200 [pond, lake])
      # AddMessage (''--> Saved: '' @ projr (raster_to_lake_name ''Juneau_1948_6class''))
      # fst (reader_loop example_host 200 2 (Suc (Suc 1)) []),
      snd (reader_loop example_host 200 2 (Suc (Suc 1)) []))"
    by blast
  have "stage2 example_host 200 [blank_row, ready_row] =
     ([AddWarning ''Skipping Sitka_1950_6class: No water_class value specified.'',
       AddMessage ''Processing 2 of 2: Juneau_1948_6class'',
       CopyFeatures ''Juneau_1948_Lakes'' (area_filter 200 [pond, lake]),
       AddMessage ''--> Saved: Juneau_1948_Lakes''], None)"
  proof -
    have s: "stage2 example_host 200 [blank_row, ready_row] =
               reader_loop example_host 200 2 1 [blank_row, ready_row]"
      by (simp add: stage2_def numeral_2_eq_2 del: reader_loop.simps)
    show ?thesis
      unfolding s 1 2 by (simp add: l h(4) str_nat_small)
  qed
  then show ?thesis
    using blank_row_fields ready_row_fields str_strip_Nil str_strip_2 h(1,2,3) by simp
qed

text \<open>With a host whose geoprocessing raises, the first record ends the batch: the blank
  record after it gets no warning and the record with an integer water class after that
  is not processed.\<close>

theorem stage2_failing_batch_counterexample:
  "map_of blank_row ''water_class'' = Some (Some []) \<and> str_strip [] = [] \<and>
   map_of ready_row ''water_class'' = Some (Some ''2'') \<and>
   py_int failing_host ''2'' = Some 2 \<and>
   stage2 failing_host 200 [ready_row, blank_row, ready_row] =
     ([AddMessage ''Processing 1 of 3: Juneau_1948_6class''], Some ExecuteError)"
proof -
  have s: "stage2 failing_host 200 [ready_row, blank_row, ready_row] =
             reader_loop failing_host 200 3 1 [ready_row, blank_row, ready_row]"
    by (simp add: stage2_def numeral_3_eq_3 del: reader_loop.simps)
  have "snd (process_row failing_host 200 3 1 ready_row) = Some ExecuteError"
    by (simp only: process_ready_failing snd_conv)
  from reader_loop_stops[OF this, of "[blank_row, ready_row]"]
  have "stage2 failing_host 200 [ready_row, blank_row, ready_row] =
     ([AddMessage ''Processing 1 of 3: Juneau_1948_6class''], Some ExecuteError)"
    unfolding s by (simp only: process_ready_failing fst_conv)
  moreover have "py_int failing_host ''2'' = Some 2"
    by (simp add: failing_host_def example_host_def)
  ultimately show ?thesis
    using blank_row_fields ready_row_fields str_strip_Nil by simp
qed

text \<open>
  C9. A tracking record whose water class is not empty but made of white space only is
  skipped with the warning, whatever the integer conversion of the host would do with
  that text (the outcome is the same for every conversion function, so the text never
  reaches it), and the pass of the loop on it is the one on the same record with an
  empty water class.
\<close>

theorem process_row_whitespace_is_blank:
  assumes "map_of row ''classified_raster'' = Some (Some raster_name)"
    and "map_of row ''water_class'' = Some (Some water_class)"
    and "water_class \<noteq> []" and "list_all is_space water_class"
  shows "(\<forall>conv. process_row (h\<lparr>py_int := conv\<rparr>) thr n idx row =
            ([AddWarning (skip_warning raster_name)], None)) \<and>
         process_row h thr n idx row =
           process_row h thr n idx
             [(''classified_raster'', Some raster_name), (''water_class'', Some [])]"
proof -
  have s: "str_strip water_class = []" using assms(4) by (rule all_space_strip)
  have 1: "process_row h' thr n idx row = ([AddWarning (skip_warning raster_name)], None)" for h'
    using process_row_blank[OF assms(1,2) s, of h' thr n idx] by (simp add: fmt_def)
  have 2: "process_row h thr n idx
             [(''classified_raster'', Some raster_name), (''water_class'', Some [])]
           = ([AddWarning (skip_warning raster_name)], None)"
    by (simp add: process_row_def getitem_def str_strip_Nil fmt_def)
  from 1 2 show ?thesis by simp
qed

theorem process_row_whitespace_is_blank_witness:
  "''  '' \<noteq> [] \<and> list_all is_space ''  '' \<and>
   (\<forall>conv. process_row (example_host\<lparr>py_int := conv\<rparr>) 200 1 1 spaces_row =
            ([AddWarning (skip_warning ''Sitka_1950_6class'')], None)) \<and>
   process_row example_host 200 1 1 spaces_row = process_row example_host 200 1 1 blank_row"
proof -
  have r: "map_of spaces_row ''classified_raster'' = Some (Some ''Sitka_1950_6class'')"
    "map_of spaces_row ''water_class'' = Some (Some ''  '')"
    by (simp_all add: spaces_row_def)
  have a: "''  '' \<noteq> []" by simp
  have b: "list_all is_space ''  ''" by (simp add: is_space_def)
  from process_row_whitespace_is_blank [OF r a b, of example_host 200 1 1] a b
  show ?thesis by (simp add: blank_row_def)
qed

text \<open>
  C6. For every water class \<open>w\<close> and every list of values read from the raster, the remap
  that Stage 2 builds sends \<open>w\<close> to 1 and every value read that differs from \<open>w\<close> to 0.
  When \<open>w\<close> is not among the values read, every value read is sent to 0 and none to 1.
  The remap is built for every \<open>w\<close>: its keys are \<open>w\<close> and the values read, each
  once, so looking a key up is not ambiguous.
\<close>

theorem build_remap_binary:
  "map_of (build_remap w vs) w = Some 1 \<and>
   (\<forall>v. v \<in> set vs \<and> v \<noteq> w \<longrightarrow> map_of (build_remap w vs) v = Some 0) \<and>
   (w \<notin> set vs \<longrightarrow>
      (\<forall>v. v \<in> set vs \<longrightarrow>
         map_of (build_remap w vs) v = Some 0 \<and> map_of (build_remap w vs) v \<noteq> Some 1)) \<and>
   distinct (map fst (build_remap w vs)) \<and>
   set (map fst (build_remap w vs)) = insert w (set vs)"
  by (auto simp: build_remap_def Let_def map_of_const comp_def distinct_map inj_on_def)

theorem build_remap_binary_witness:
  "map_of (build_remap 2 [1, 2, 3, 2, 1]) 2 = Some 1 \<and>
   map_of (build_remap 2 [1, 2, 3, 2, 1]) 1 = Some 0 \<and>
   map_of (build_remap 2 [1, 2, 3, 2, 1]) 3 = Some 0 \<and>
   7 \<notin> set [1, 2, 3 :: int] \<and>
   map_of (build_remap 7 [1, 2, 3]) 7 = Some 1 \<and>
   map_of (build_remap 7 [1, 2, 3]) 1 = Some 0 \<and>
   map_of (build_remap 7 [1, 2, 3]) 2 = Some 0 \<and>
   map_of (build_remap 7 [1, 2, 3]) 3 = Some 0"
  using build_remap_binary [of 2 "[1, 2, 3, 2, 1]"] build_remap_binary [of 7 "[1, 2, 3]"]
  by simp

text \<open>
  C5. The features that Stage 2 saves are the clipped polygons whose geodesic area is
  strictly greater than the threshold, each with its area in the field \<^verbatim>\<open>poly_area\<close>,
  in the order of the input. Every saved feature has an area above the threshold, and a
  clipped polygon is saved if and only if its area is above the threshold; a polygon whose
  area equals the threshold is therefore left out.
\<close>

theorem area_filter_strictly_greater:
  "area_filter t ps =
     map (\<lambda>p. p\<lparr>attrs := (attrs p)(''poly_area'' \<mapsto> Some (area_geodesic p))\<rparr>)
       (filter (\<lambda>p. area_geodesic p > t) ps) \<and>
   (\<forall>f \<in> set (area_filter t ps). area_geodesic f > t \<and> attrs f ''poly_area'' = Some (Some (area_geodesic f))) \<and>
   (\<forall>p \<in> set ps. (p\<lparr>attrs := (attrs p)(''poly_area'' \<mapsto> Some (area_geodesic p))\<rparr> \<in> set (area_filter t ps))
        = (area_geodesic p > t))"
proof (intro conjI)
  show 1: "area_filter t ps =
     map (\<lambda>p. p\<lparr>attrs := (attrs p)(''poly_area'' \<mapsto> Some (area_geodesic p))\<rparr>)
       (filter (\<lambda>p. area_geodesic p > t) ps)" by (rule area_filter_eq)
  show "\<forall>f \<in> set (area_filter t ps). area_geodesic f > t \<and> attrs f ''poly_area'' = Some (Some (area_geodesic f))"
    unfolding 1 by auto
  show "\<forall>p \<in> set ps. (p\<lparr>attrs := (attrs p)(''poly_area'' \<mapsto> Some (area_geodesic p))\<rparr> \<in> set (area_filter t ps))
        = (area_geodesic p > t)"
  proof
    fix p assume p: "p \<in> set ps"
    let ?p' = "p\<lparr>attrs := (attrs p)(''poly_area'' \<mapsto> Some (area_geodesic p))\<rparr>"
    show "(?p' \<in> set (area_filter t ps)) = (area_geodesic p > t)"
    proof
      assume "?p' \<in> set (area_filter t ps)"
      then obtain q where q: "q \<in> set ps" "area_geodesic q > t"
        "?p' = q\<lparr>attrs := (attrs q)(''poly_area'' \<mapsto> Some (area_geodesic q))\<rparr>"
        unfolding 1 by auto
      from q(3) have "area_geodesic ?p' =
          area_geodesic (q\<lparr>attrs := (attrs q)(''poly_area'' \<mapsto> Some (area_geodesic q))\<rparr>)"
        by (rule arg_cong)
      then have "area_geodesic p = area_geodesic q" by simp
      then show "area_geodesic p > t" using q(2) by simp
    next
      assume "area_geodesic p > t"
      then show "?p' \<in> set (area_filter t ps)"
        unfolding 1 using p by auto
    qed
  qed
qed

theorem area_filter_strictly_greater_witness:
  "pond \<in> set [pond, lake] \<and> area_geodesic pond = 200 \<and>
   pond\<lparr>attrs := (attrs pond)(''poly_area'' \<mapsto> Some (area_geodesic pond))\<rparr>
     \<notin> set (area_filter 200 [pond, lake]) \<and>
   lake\<lparr>attrs := (attrs lake)(''poly_area'' \<mapsto> Some (area_geodesic lake))\<rparr>
     \<in> set (area_filter 200 [pond, lake]) \<and>
   map fid (area_filter 200 [pond, lake]) = [2]"
proof -
  have a: "area_geodesic pond = 200" "area_geodesic lake = 250" "fid lake = 2"
    by (simp_all add: pond_def lake_def)
  note T = area_filter_strictly_greater [of 200 "[pond, lake]"]
  from T have "\<forall>p \<in> set [pond, lake].
      (p\<lparr>attrs := (attrs p)(''poly_area'' \<mapsto> Some (area_geodesic p))\<rparr>
         \<in> set (area_filter 200 [pond, lake])) = (area_geodesic p > 200)"
    by blast
  with a have m: "pond\<lparr>attrs := (attrs pond)(''poly_area'' \<mapsto> Some (area_geodesic pond))\<rparr>
     \<notin> set (area_filter 200 [pond, lake])"
    "lake\<lparr>attrs := (attrs lake)(''poly_area'' \<mapsto> Some (area_geodesic lake))\<rparr>
     \<in> set (area_filter 200 [pond, lake])"
    by simp_all
  from T have "area_filter 200 [pond, lake] =
     map (\<lambda>p. p\<lparr>attrs := (attrs p)(''poly_area'' \<mapsto> Some (area_geodesic p))\<rparr>)
       (filter (\<lambda>p. area_geodesic p > 200) [pond, lake])"
    by blast
  with a have f: "map fid (area_filter 200 [pond, lake]) = [2]" by simp
  from a m f show ?thesis by simp
qed

end
